theory Spec2Isabelle
  imports Main
begin

section \<open>Python values, text and conversions\<close>

text \<open>
  The functions of \<^verbatim>\<open>validator_lib/utilities.py\<close> are dynamically typed: a year
  reaches them as an \<^verbatim>\<open>int\<close> or as a \<^verbatim>\<open>str\<close>, and they hand back either.
  A text is a \<open>string\<close> whose characters are the code points below 256; on these
  \<^verbatim>\<open>\d\<close>, \<^verbatim>\<open>\w\<close>, \<^verbatim>\<open>str.lower\<close> and \<^verbatim>\<open>int\<close> of CPython 3 are
  the functions below. The interpreter's configurable limit on the number of digits in
  an \<^verbatim>\<open>int\<close>/\<^verbatim>\<open>str\<close> conversion is not part of the development.
\<close>

datatype pyval = PInt int | PStr string

datatype py_error =
    ValueError
  | KeyError
  | TypeError
  | Runaway string
  | MetaInYear

text \<open>
  \<open>Runaway\<close> is the bare \<^verbatim>\<open>Exception\<close> of \<^verbatim>\<open>get_unused_filename\<close>, with its
  message. \<open>MetaInYear\<close> is no Python exception: it marks a call whose year text
  holds a character that \<^verbatim>\<open>re\<close> reads as pattern syntax once the text is spliced
  into the pattern; what the source does then is outside this development.
\<close>

definition code_point :: "char \<Rightarrow> nat" where
  "code_point c = of_char c"

definition is_digit :: "char \<Rightarrow> bool" where
  "is_digit c = (48 \<le> code_point c \<and> code_point c \<le> 57)"

definition is_word :: "char \<Rightarrow> bool" where
  "is_word c =
     (let n = code_point c in
        (48 \<le> n \<and> n \<le> 57) \<or> (65 \<le> n \<and> n \<le> 90) \<or> n = 95 \<or> (97 \<le> n \<and> n \<le> 122)
        \<or> n = 170 \<or> n = 178 \<or> n = 179 \<or> n = 181 \<or> n = 185 \<or> n = 186
        \<or> n = 188 \<or> n = 189 \<or> n = 190
        \<or> (192 \<le> n \<and> n \<le> 255 \<and> n \<noteq> 215 \<and> n \<noteq> 247))"

definition lower_char :: "char \<Rightarrow> char" where
  "lower_char c =
     (let n = code_point c in
        if (65 \<le> n \<and> n \<le> 90) \<or> (192 \<le> n \<and> n \<le> 222 \<and> n \<noteq> 215)
        then char_of (n + 32) else c)"

definition lower :: "string \<Rightarrow> string" where
  "lower s = map lower_char s"

definition digit_char :: "nat \<Rightarrow> char" where
  "digit_char d = char_of (48 + d)"

fun digits_of :: "nat \<Rightarrow> string" where
  "digits_of n = (if n < 10 then [digit_char n] else digits_of (n div 10) @ [digit_char (n mod 10)])"

declare digits_of.simps [simp del]

definition str_int :: "int \<Rightarrow> string" where
  "str_int i = (if i < 0 then CHR ''-'' # digits_of (nat (- i)) else digits_of (nat i))"

definition py_str :: "pyval \<Rightarrow> string" where
  "py_str v = (case v of PInt i \<Rightarrow> str_int i | PStr s \<Rightarrow> s)"

text \<open>\<^verbatim>\<open>int(s)\<close> in base 10: blanks stripped at both ends, an optional sign, then
  digits, where single underscores may stand between two digits.\<close>

definition is_int_space :: "char \<Rightarrow> bool" where
  "is_int_space c =
     (let n = code_point c in (9 \<le> n \<and> n \<le> 13) \<or> n = 32 \<or> n = 133 \<or> n = 160)"

definition strip_int :: "string \<Rightarrow> string" where
  "strip_int s = rev (dropWhile is_int_space (rev (dropWhile is_int_space s)))"

fun digit_groups :: "string \<Rightarrow> bool" where
  "digit_groups [] = False"
| "digit_groups [c] = is_digit c"
| "digit_groups (c # d # cs) =
     (if is_digit c then digit_groups (d # cs)
      else c = CHR ''_'' \<and> is_digit d \<and> digit_groups (d # cs))"

definition int_literal :: "string \<Rightarrow> bool" where
  "int_literal s = (case s of [] \<Rightarrow> False | c # _ \<Rightarrow> is_digit c \<and> digit_groups s)"

definition digits_value :: "string \<Rightarrow> nat" where
  "digits_value s = foldl (\<lambda>a c. 10 * a + (code_point c - 48)) 0 (filter is_digit s)"

definition int_of_str :: "string \<Rightarrow> py_error + int" where
  "int_of_str s =
     (let t = strip_int s;
          neg = (case t of [] \<Rightarrow> False | c # _ \<Rightarrow> c = CHR ''-'');
          u = (case t of [] \<Rightarrow> [] | c # cs \<Rightarrow> if c = CHR ''-'' \<or> c = CHR ''+'' then cs else t)
      in if int_literal u
         then Inr (if neg then - int (digits_value u) else int (digits_value u))
         else Inl ValueError)"

definition py_int :: "pyval \<Rightarrow> py_error + int" where
  "py_int v = (case v of PInt i \<Rightarrow> Inr i | PStr s \<Rightarrow> int_of_str s)"

text \<open>Truth value and \<^verbatim>\<open>str\<close> of an argument that may be \<^verbatim>\<open>None\<close>
  (\<open>None\<close> here).\<close>

definition truthy :: "pyval option \<Rightarrow> bool" where
  "truthy v = (case v of None \<Rightarrow> False | Some (PInt i) \<Rightarrow> i \<noteq> 0 | Some (PStr s) \<Rightarrow> s \<noteq> [])"

definition str_of :: "pyval option \<Rightarrow> string" where
  "str_of v = (case v of None \<Rightarrow> ''None'' | Some x \<Rightarrow> py_str x)"

section \<open>The patterns and \<^verbatim>\<open>re.search\<close>\<close>

text \<open>
  The source's patterns use literals, character sets, \<^verbatim>\<open>\d\<close>, \<^verbatim>\<open>\b\<close>,
  alternation, the greedy \<^verbatim>\<open>?\<close>, the greedy \<^verbatim>\<open>*\<close> on a single character and at
  most one capturing group. \<open>rx_match\<close> lists the ways a pattern matches at a position in
  the order in which the backtracking matcher tries them, so the head of the list is the
  match that \<^verbatim>\<open>re\<close> reports. A position is the character before it (if any) and the
  text from it on; the third component is the text of group 1 once it has matched.
\<close>

datatype rx =
    Chr char
  | OneOf string
  | Digit
  | WordB
  | Eps
  | Seq rx rx
  | Alt rx rx
  | Opt rx
  | Star char
  | Grp rx

type_synonym mstate = "char option \<times> string \<times> string option"

definition at_boundary :: "char option \<Rightarrow> string \<Rightarrow> bool" where
  "at_boundary p s =
     ((case p of None \<Rightarrow> False | Some c \<Rightarrow> is_word c)
        \<noteq> (case s of [] \<Rightarrow> False | c # _ \<Rightarrow> is_word c))"

fun star_states :: "char \<Rightarrow> mstate \<Rightarrow> mstate list" where
  "star_states c (p, [], g) = [(p, [], g)]"
| "star_states c (p, x # xs, g) =
     (if x = c then star_states c (Some x, xs, g) @ [(p, x # xs, g)] else [(p, x # xs, g)])"

fun rx_match :: "rx \<Rightarrow> mstate \<Rightarrow> mstate list" where
  "rx_match (Chr c) (p, s, g) =
     (case s of [] \<Rightarrow> [] | x # xs \<Rightarrow> if x = c then [(Some x, xs, g)] else [])"
| "rx_match (OneOf cs) (p, s, g) =
     (case s of [] \<Rightarrow> [] | x # xs \<Rightarrow> if x \<in> set cs then [(Some x, xs, g)] else [])"
| "rx_match Digit (p, s, g) =
     (case s of [] \<Rightarrow> [] | x # xs \<Rightarrow> if is_digit x then [(Some x, xs, g)] else [])"
| "rx_match WordB (p, s, g) = (if at_boundary p s then [(p, s, g)] else [])"
| "rx_match Eps st = [st]"
| "rx_match (Seq a b) st = concat (map (rx_match b) (rx_match a st))"
| "rx_match (Alt a b) st = rx_match a st @ rx_match b st"
| "rx_match (Opt a) st = rx_match a st @ [st]"
| "rx_match (Star c) st = star_states c st"
| "rx_match (Grp a) (p, s, g) =
     map (\<lambda>(p', s', g'). (p', s', Some (take (length s - length s') s))) (rx_match a (p, s, g))"

text \<open>A match object is represented by what \<^verbatim>\<open>m.group(1)\<close> gives: the text of
  group 1, or \<open>None\<close> when no group took part. \<open>search_from\<close> tries the start
  positions from left to right, as \<^verbatim>\<open>re.search\<close> does.\<close>

type_synonym match = "string option"

fun search_from :: "rx \<Rightarrow> char option \<Rightarrow> string \<Rightarrow> match option" where
  "search_from r p [] =
     (case rx_match r (p, [], None) of [] \<Rightarrow> None | (_, _, g) # _ \<Rightarrow> Some g)"
| "search_from r p (x # xs) =
     (case rx_match r (p, x # xs, None) of
        [] \<Rightarrow> search_from r (Some x) xs
      | (_, _, g) # _ \<Rightarrow> Some g)"

definition re_search :: "rx \<Rightarrow> string \<Rightarrow> match option" where
  "re_search r s = search_from r None s"

fun lit :: "string \<Rightarrow> rx" where
  "lit [] = Eps"
| "lit (c # cs) = Seq (Chr c) (lit cs)"

section \<open>Magic words in holdings text\<close>

text \<open>The dictionary \<^verbatim>\<open>search_data\<close> of \<^verbatim>\<open>check_holdings_data_for_magic_words\<close>:
  \<^verbatim>\<open>bd\.? w\<close>, \<^verbatim>\<open>d\.?v\.?d\.?\<close> and \<^verbatim>\<open>\bc\.?d\.?\b\<close> are the three entries that
  are not plain words.\<close>

definition dot_opt :: rx where
  "dot_opt = Opt (Chr CHR ''.'')"

definition search_data :: "string \<Rightarrow> rx list option" where
  "search_data k =
     (if k = ''completeness''
      then Some [lit ''inc'', lit ''compl'', lit ''miss'', lit ''lack'', lit ''without'',
                 lit ''w/o'', lit ''repr'']
      else if k = ''binding''
      then Some [lit ''bound'',
                 Seq (Chr CHR ''b'') (Seq (Chr CHR ''d'') (Seq dot_opt (lit '' w'')))]
      else if k = ''nonprint''
      then Some [Seq (Chr CHR ''d'') (Seq dot_opt (Seq (Chr CHR ''v'') (Seq dot_opt
                   (Seq (Chr CHR ''d'') dot_opt)))),
                 Seq WordB (Seq (Chr CHR ''c'') (Seq dot_opt (Seq (Chr CHR ''d'')
                   (Seq dot_opt WordB))))]
      else None)"

text \<open>The inner loop over the fragments of one condition, and the outer loop over the
  three segments. The dictionary is indexed inside the outer loop, after the blank
  test, so a missing key raises only once a non-blank segment is reached.\<close>

fun any_fragment :: "rx list \<Rightarrow> string \<Rightarrow> bool" where
  "any_fragment [] seg = False"
| "any_fragment (search_string # rest) seg =
     (if re_search search_string (lower seg) \<noteq> None then True else any_fragment rest seg)"

fun scan_segments :: "pyval option list \<Rightarrow> string \<Rightarrow> py_error + string" where
  "scan_segments [] search_type = Inr ''''"
| "scan_segments (holdings_segment # rest) search_type =
     (if \<not> truthy holdings_segment then scan_segments rest search_type
      else case search_data search_type of
             None \<Rightarrow> Inl KeyError
           | Some fragments \<Rightarrow>
               if any_fragment fragments (str_of holdings_segment) then Inr ''1''
               else scan_segments rest search_type)"

definition check_holdings_data_for_magic_words ::
  "pyval option \<Rightarrow> pyval option \<Rightarrow> pyval option \<Rightarrow> string \<Rightarrow> py_error + string" where
  "check_holdings_data_for_magic_words holdings holdings_nonpublic_notes holdings_public_notes
       search_type =
     scan_segments [holdings, holdings_nonpublic_notes, holdings_public_notes] search_type"

section \<open>Slash years\<close>

text \<open>\<^verbatim>\<open>(?:1[6789]\d\d|20[01]\d|2020)\<close> and the same with \<^verbatim>\<open>|\d\d\<close> added,
  and the separator \<^verbatim>\<open> *[-/] *\<close> that both patterns share.\<close>

definition year_regex :: rx where
  "year_regex =
     Alt (Seq (Chr CHR ''1'') (Seq (OneOf ''6789'') (Seq Digit Digit)))
    (Alt (Seq (Chr CHR ''2'') (Seq (Chr CHR ''0'') (Seq (OneOf ''01'') Digit)))
         (lit ''2020''))"

definition second_year_regex :: rx where
  "second_year_regex =
     Alt (Seq (Chr CHR ''1'') (Seq (OneOf ''6789'') (Seq Digit Digit)))
    (Alt (Seq (Chr CHR ''2'') (Seq (Chr CHR ''0'') (Seq (OneOf ''01'') Digit)))
    (Alt (lit ''2020'')
         (Seq Digit Digit)))"

definition separator :: rx where
  "separator = Seq (Star CHR '' '') (Seq (OneOf ''-/'') (Star CHR '' ''))"

text \<open>\<^verbatim>\<open>r'({}) *[-/] *(?:{}|{})'.format(year_regex, year, short_year)\<close> and
  \<^verbatim>\<open>r'{} *[-/] *((?:{}))\b'.format(year, second_year_regex)\<close>. The year is spliced in
  as text; it stands for itself as long as it holds none of the characters
  \<^verbatim>\<open>.^$*+?{}[]\|()\<close>.\<close>

definition earlier_pattern :: "string \<Rightarrow> string \<Rightarrow> rx" where
  "earlier_pattern year short_year =
     Seq (Grp year_regex) (Seq separator (Alt (lit year) (lit short_year)))"

definition later_pattern :: "string \<Rightarrow> rx" where
  "later_pattern year = Seq (lit year) (Seq separator (Seq (Grp second_year_regex) WordB))"

definition is_meta :: "char \<Rightarrow> bool" where
  "is_meta c = (c \<in> set (''.^$*+?{}[]|()'' @ [CHR 0x5C]))"

definition year_search :: "string \<Rightarrow> rx \<Rightarrow> string \<Rightarrow> py_error + match option" where
  "year_search year pattern data_segment =
     (if \<exists>c \<in> set year. is_meta c then Inl MetaInYear else Inr (re_search pattern data_segment))"

definition get_earlier_of_slash_year :: "pyval \<Rightarrow> string \<Rightarrow> py_error + pyval" where
  "get_earlier_of_slash_year year data_segment =
     (let short_year = drop 2 (py_str year) in
      case year_search (py_str year) (earlier_pattern (py_str year) short_year) data_segment of
        Inl e \<Rightarrow> Inl e
      | Inr None \<Rightarrow> Inr year
      | Inr (Some m) \<Rightarrow>
          (case m of
             None \<Rightarrow> Inl TypeError
           | Some found_year \<Rightarrow>
               (case int_of_str found_year of
                  Inl e \<Rightarrow> Inl e
                | Inr f \<Rightarrow>
                    (case py_int year of
                       Inl e \<Rightarrow> Inl e
                     | Inr y \<Rightarrow> Inr (if f < y then PStr found_year else year)))))"

definition expand_short_year :: "pyval \<Rightarrow> string \<Rightarrow> string" where
  "expand_short_year year found_year =
     (if length found_year = 2 then take 2 (py_str year) @ found_year else found_year)"

definition get_later_of_slash_year :: "pyval \<Rightarrow> string \<Rightarrow> py_error + pyval" where
  "get_later_of_slash_year year data_segment =
     (case year_search (py_str year) (later_pattern (py_str year)) data_segment of
        Inl e \<Rightarrow> Inl e
      | Inr None \<Rightarrow> Inr year
      | Inr (Some m) \<Rightarrow>
          (case m of
             None \<Rightarrow> Inl TypeError
           | Some found \<Rightarrow>
               (let found_year = expand_short_year year found
                in case int_of_str found_year of
                     Inl e \<Rightarrow> Inl e
                   | Inr f \<Rightarrow>
                       (case py_int year of
                          Inl e \<Rightarrow> Inl e
                        | Inr y \<Rightarrow> Inr (if f > y then PStr found_year else year)))))"

definition double_check_slash_start_year ::
  "pyval \<Rightarrow> string \<Rightarrow> pyval \<Rightarrow> string \<Rightarrow> py_error + bool" where
  "double_check_slash_start_year bib_year bib_string holdings_year holdings_string =
     (case get_earlier_of_slash_year bib_year bib_string of
        Inl e \<Rightarrow> Inl e
      | Inr bib_year' \<Rightarrow>
          (case get_later_of_slash_year holdings_year holdings_string of
             Inl e \<Rightarrow> Inl e
           | Inr holdings_year' \<Rightarrow>
               (case py_int holdings_year' of
                  Inl e \<Rightarrow> Inl e
                | Inr h \<Rightarrow>
                    (case py_int bib_year' of
                       Inl e \<Rightarrow> Inl e
                     | Inr b \<Rightarrow> Inr (h \<ge> b)))))"

section \<open>Unused file names\<close>

text \<open>\<^verbatim>\<open>os.path.split\<close> and \<^verbatim>\<open>os.path.join\<close> are those of \<^verbatim>\<open>posixpath\<close>;
  \<^verbatim>\<open>os.path.isfile\<close> is a predicate on paths, the state of the file system during
  the call. \<open>rindex\<close> is \<^verbatim>\<open>str.rindex\<close> for one character, \<open>None\<close> where it
  raises.\<close>

fun rindex :: "char \<Rightarrow> string \<Rightarrow> nat option" where
  "rindex c [] = None"
| "rindex c (x # xs) =
     (case rindex c xs of
        Some i \<Rightarrow> Some (Suc i)
      | None \<Rightarrow> if x = c then Some 0 else None)"

definition path_split :: "string \<Rightarrow> string \<times> string" where
  "path_split p =
     (let i = (case rindex CHR ''/'' p of None \<Rightarrow> 0 | Some k \<Rightarrow> Suc k);
          head = take i p;
          tail = drop i p
      in (if head \<noteq> [] \<and> head \<noteq> replicate (length head) CHR ''/''
          then rev (dropWhile (\<lambda>c. c = CHR ''/'') (rev head)) else head,
          tail))"

definition path_join :: "string \<Rightarrow> string \<Rightarrow> string" where
  "path_join a b =
     (if take 1 b = ''/'' then b
      else if a = [] \<or> last a = CHR ''/'' then a @ b
      else a @ ''/'' @ b)"

definition new_filename :: "string \<Rightarrow> nat \<Rightarrow> string \<Rightarrow> string" where
  "new_filename base_filename new_file_number file_extension =
     base_filename @ ''('' @ str_int (int new_file_number) @ '')'' @ file_extension"

function next_unused ::
  "(string \<Rightarrow> bool) \<Rightarrow> string \<Rightarrow> string \<Rightarrow> string \<Rightarrow> string \<Rightarrow> nat \<Rightarrow> py_error + string" where
  "next_unused isfile path_base base_filename file_extension full_filename new_file_number =
     (let n = new_file_number + 1;
          new_file_location = path_join path_base (new_filename base_filename n file_extension)
      in if \<not> isfile new_file_location then Inr new_file_location
         else if n \<ge> 999
         then Inl (Runaway (''At least 1000 files with the base name '' @ full_filename
                             @ ''. Runaway process?''))
         else next_unused isfile path_base base_filename file_extension full_filename n)"
  by pat_completeness auto
termination
  by (relation "measure (\<lambda>(isfile, pb, b, e, f, n). 999 - n)") auto

declare next_unused.simps [simp del]

definition get_unused_filename :: "(string \<Rightarrow> bool) \<Rightarrow> string \<Rightarrow> py_error + string" where
  "get_unused_filename isfile file_location =
     (if \<not> isfile file_location then Inr file_location
      else let (path_base, full_filename) = path_split file_location in
           case rindex CHR ''.'' full_filename of
             None \<Rightarrow> Inl ValueError
           | Some i \<Rightarrow>
               next_unused isfile path_base (take i full_filename) (drop i full_filename)
                 full_filename 0)"

section \<open>Fields and issues for one file\<close>

text \<open>\<^verbatim>\<open>FieldsAndIssuesFinder\<close> holds a \<^verbatim>\<open>ValidatorConfig\<close>, a \<^verbatim>\<open>BulkConfig\<close> and
  the flag \<^verbatim>\<open>use_validator_config\<close>. The two configuration classes live in other
  modules; what the finder reads from them are fields of the record:
  \<open>get_input_fields\<close> is the method of that name (\<open>None\<close> or an empty list when
  the file has no fields of its own), \<open>config_disqualifying_issues\<close> is
  \<^verbatim>\<open>config['disqualifying_issues']\<close> (\<open>None\<close> when the key is missing, the
  \<^verbatim>\<open>KeyError\<close> that the source catches) and \<open>default_disqualifying_issues\<close> is
  what \<^verbatim>\<open>get_default_disqualifying_issues()\<close> returns.\<close>

type_synonym issue_flags = "(string \<times> bool) list"

text \<open>Modelled from the spec: an entry of \<^verbatim>\<open>BulkConfig.bulk_config_data\<close>, which the
  spec describes as a record containing a FieldSet and IssueFlags; the source reads it
  under the keys \<^verbatim>\<open>'input_fields'\<close> and \<^verbatim>\<open>'disqualifying_issues'\<close>.\<close>

record bulk_entry =
  input_fields :: "string list"
  disqualifying_issues :: issue_flags

record finder =
  get_input_fields :: "string \<Rightarrow> string list option"
  config_disqualifying_issues :: "issue_flags option"
  default_disqualifying_issues :: issue_flags
  bulk_config_data :: "string \<Rightarrow> bulk_entry option"
  associated_names_map :: "string \<Rightarrow> string option"
  use_validator_config :: bool

datatype log_level = INFO | WARNING

type_synonym log_record = "log_level \<times> string"

definition get_institution_name_from_filename :: "string \<Rightarrow> string" where
  "get_institution_name_from_filename filename =
     (let file_proper = snd (path_split filename)
      in lower (takeWhile (\<lambda>c. c \<noteq> CHR ''.'') file_proper))"

definition fields_given :: "string list option \<Rightarrow> bool" where
  "fields_given v = (case v of None \<Rightarrow> False | Some fs \<Rightarrow> fs \<noteq> [])"

text \<open>The method returns its result and leaves the flag set on the instance; the flag is
  written before any lookup in the bulk data, so it is set also when that lookup
  raises. Falling off the end of the method returns \<^verbatim>\<open>None\<close>.\<close>

definition get_fields_for_individual_file ::
  "finder \<Rightarrow> string \<Rightarrow> (py_error + string list option) \<times> finder" where
  "get_fields_for_individual_file self filename =
     (let file_fields = get_input_fields self filename in
      if fields_given file_fields
      then (Inr file_fields, self\<lparr>use_validator_config := True\<rparr>)
      else
        let self' = self\<lparr>use_validator_config := False\<rparr>;
            inst_name = get_institution_name_from_filename filename
        in case bulk_config_data self' inst_name of
             Some entry \<Rightarrow> (Inr (Some (input_fields entry)), self')
           | None \<Rightarrow>
               (case associated_names_map self' inst_name of
                  Some program_name \<Rightarrow>
                    (case bulk_config_data self' program_name of
                       Some entry \<Rightarrow> (Inr (Some (input_fields entry)), self')
                     | None \<Rightarrow> (Inl KeyError, self'))
                | None \<Rightarrow> (Inr None, self')))"

definition global_issues :: "finder \<Rightarrow> log_record list \<times> issue_flags" where
  "global_issues self =
     (case config_disqualifying_issues self of
        Some issues \<Rightarrow>
          if issues \<noteq> [] then ([], issues)
          else ([(WARNING, ''No disqualifying issues set. Using defaults.'')],
                default_disqualifying_issues self)
      | None \<Rightarrow>
          ([(WARNING, ''No disqualifying issues set. Using defaults.'')],
           default_disqualifying_issues self))"

definition get_issues_for_individual_file ::
  "finder \<Rightarrow> string option \<Rightarrow> py_error + log_record list \<times> issue_flags" where
  "get_issues_for_individual_file self filename =
     (case filename of
        None \<Rightarrow> Inr (global_issues self)
      | Some name \<Rightarrow>
          if name = [] then Inr (global_issues self)
          else
            let inst_name = get_institution_name_from_filename name in
            if bulk_config_data self inst_name \<noteq> None \<and> \<not> use_validator_config self
            then (case bulk_config_data self inst_name of
                    Some entry \<Rightarrow>
                      Inr ([(INFO, ''Using disqualifying issues set for '' @ inst_name)],
                           disqualifying_issues entry)
                  | None \<Rightarrow> Inl KeyError)
            else
              (case associated_names_map self inst_name of
                 Some program_name \<Rightarrow>
                   (case bulk_config_data self program_name of
                      Some entry \<Rightarrow>
                        Inr ([(INFO, ''Using disqualifying issues set for '' @ program_name)],
                             disqualifying_issues entry)
                    | None \<Rightarrow> Inl KeyError)
               | None \<Rightarrow> Inr (global_issues self)))"

section \<open>Predicates of the statements\<close>

text \<open>The year functions are stated for the years a caller can pass after its own
  checks: a Python \<^verbatim>\<open>int\<close>, or a \<^verbatim>\<open>str\<close> of one or more decimal digits.\<close>

definition digit_string :: "string \<Rightarrow> bool" where
  "digit_string s = (s \<noteq> [] \<and> list_all is_digit s)"

definition year_ok :: "pyval \<Rightarrow> bool" where
  "year_ok year = (case year of PInt i \<Rightarrow> True | PStr s \<Rightarrow> digit_string s)"

text \<open>Three syntactic measures of a pattern: whether it holds the capturing group,
  whether it can only consume digits, and the least number of characters it consumes.\<close>

fun has_grp :: "rx \<Rightarrow> bool" where
  "has_grp (Seq a b) = (has_grp a \<or> has_grp b)"
| "has_grp (Alt a b) = (has_grp a \<or> has_grp b)"
| "has_grp (Opt a) = has_grp a"
| "has_grp (Grp a) = True"
| "has_grp r = False"

fun digit_rx :: "rx \<Rightarrow> bool" where
  "digit_rx (Chr c) = is_digit c"
| "digit_rx (OneOf cs) = list_all is_digit cs"
| "digit_rx Digit = True"
| "digit_rx Eps = True"
| "digit_rx (Seq a b) = (digit_rx a \<and> digit_rx b)"
| "digit_rx (Alt a b) = (digit_rx a \<and> digit_rx b)"
| "digit_rx r = False"

fun min_len :: "rx \<Rightarrow> nat" where
  "min_len (Chr c) = 1"
| "min_len (OneOf cs) = 1"
| "min_len Digit = 1"
| "min_len (Seq a b) = min_len a + min_len b"
| "min_len (Alt a b) = min (min_len a) (min_len b)"
| "min_len (Grp a) = min_len a"
| "min_len r = 0"

text \<open>A file system whose only file is \<^verbatim>\<open>README\<close>.\<close>

definition readme_only :: "string \<Rightarrow> bool" where
  "readme_only p = (p = ''README'')"

text \<open>Two configurations in which a file has fields of its own in the validator
  configuration and its institution is associated with a program of the bulk data. In
  the first the institution has a bulk entry as well and the validator configuration
  sets issues; in the second neither is the case.\<close>

definition member_config :: finder where
  "member_config =
     \<lparr>get_input_fields = (\<lambda>f. if f = ''input/ABC.tsv'' then Some [''001'', ''245''] else None),
      config_disqualifying_issues = Some [(''binding_words_in_holdings'', True)],
      default_disqualifying_issues = [(''holdings_out_of_range'', True)],
      bulk_config_data =
        (\<lambda>k. if k = ''abc''
             then Some \<lparr>input_fields = [''004''],
                        disqualifying_issues = [(''completeness_words_in_holdings'', True)]\<rparr>
             else if k = ''consortium''
             then Some \<lparr>input_fields = [''022''],
                        disqualifying_issues = [(''nonprint_words_in_holdings'', True)]\<rparr>
             else None),
      associated_names_map = (\<lambda>k. if k = ''abc'' then Some ''consortium'' else None),
      use_validator_config = False\<rparr>"

definition alias_only_config :: finder where
  "alias_only_config =
     \<lparr>get_input_fields = (\<lambda>f. if f = ''xyz.mrk'' then Some [''866''] else None),
      config_disqualifying_issues = None,
      default_disqualifying_issues = [(''holdings_out_of_range'', True)],
      bulk_config_data =
        (\<lambda>k. if k = ''consortium''
             then Some \<lparr>input_fields = [''022''],
                        disqualifying_issues = [(''nonprint_words_in_holdings'', True)]\<rparr>
             else None),
      associated_names_map = (\<lambda>k. if k = ''xyz'' then Some ''consortium'' else None),
      use_validator_config = False\<rparr>"

section \<open>Digits and conversions\<close>

lemma digit_not_special:
  assumes "is_digit c"
  shows "\<not> is_int_space c" "c \<noteq> CHR ''-''" "c \<noteq> CHR ''+''" "c \<noteq> CHR ''_''" "\<not> is_meta c"
  using assms by (auto simp: is_digit_def is_int_space_def is_meta_def code_point_def)

lemma minus_not_meta: "\<not> is_meta CHR ''-''"
  by (simp add: is_meta_def)

lemma digit_char_is_digit: "d < 10 \<Longrightarrow> is_digit (digit_char d)"
  by (simp add: is_digit_def digit_char_def code_point_def)

lemma digits_of_digit_string: "digit_string (digits_of n)"
proof (induction n rule: digits_of.induct)
  case (1 n)
  show ?case
  proof (cases "n < 10")
    case True
    then show ?thesis
      by (subst digits_of.simps) (simp add: digit_string_def digit_char_is_digit)
  next
    case False
    with 1 have "digit_string (digits_of (n div 10))" by simp
    with False show ?thesis
      by (subst digits_of.simps) (simp add: digit_string_def digit_char_is_digit)
  qed
qed

lemma digit_groups_digits: "digit_string s \<Longrightarrow> digit_groups s"
proof (induction s rule: digit_groups.induct)
  case 1
  then show ?case by (simp add: digit_string_def)
next
  case (2 c)
  then show ?case by (simp add: digit_string_def)
next
  case (3 c d cs)
  then show ?case by (simp add: digit_string_def)
qed

lemma int_literal_digits:
  assumes "digit_string s"
  shows "int_literal s"
proof (cases s)
  case Nil
  with assms show ?thesis by (simp add: digit_string_def)
next
  case (Cons c cs)
  with assms have "is_digit c" by (simp add: digit_string_def)
  with Cons digit_groups_digits [OF assms] show ?thesis by (simp add: int_literal_def)
qed

lemma strip_int_keeps:
  assumes "s \<noteq> []" "\<not> is_int_space (hd s)" "\<not> is_int_space (last s)"
  shows "strip_int s = s"
proof -
  from assms have a: "dropWhile is_int_space s = s"
    by (cases s) simp_all
  from assms have "dropWhile is_int_space (rev s) = rev s"
    by (cases "rev s") (simp_all add: last_rev [symmetric] hd_rev)
  with a show ?thesis by (simp add: strip_int_def)
qed

lemma digit_string_ends:
  assumes "digit_string s"
  shows "s \<noteq> []" "is_digit (hd s)" "is_digit (last s)"
  using assms by (auto simp: digit_string_def list_all_iff)

lemma int_of_str_digits:
  assumes "digit_string s"
  shows "int_of_str s = Inr (int (digits_value s))"
proof -
  from digit_string_ends [OF assms] have "strip_int s = s"
    by (intro strip_int_keeps) (simp_all add: digit_not_special)
  moreover obtain c cs where "s = c # cs" "is_digit c"
    using digit_string_ends [OF assms] by (cases s) auto
  ultimately show ?thesis
    using int_literal_digits [OF assms]
    by (simp add: int_of_str_def digit_not_special)
qed

lemma int_of_str_minus_digits:
  assumes "digit_string s"
  shows "int_of_str (CHR ''-'' # s) = Inr (- int (digits_value s))"
proof -
  have "\<not> is_int_space CHR ''-''"
    by (simp add: is_int_space_def code_point_def)
  with digit_string_ends [OF assms] have "strip_int (CHR ''-'' # s) = CHR ''-'' # s"
    by (intro strip_int_keeps) (simp_all add: digit_not_special)
  then show ?thesis
    using int_literal_digits [OF assms]
    by (simp add: int_of_str_def)
qed

lemma digit_string_append: "digit_string a \<Longrightarrow> list_all is_digit b \<Longrightarrow> digit_string (a @ b)"
  by (simp add: digit_string_def)

lemma digit_string_take: "digit_string s \<Longrightarrow> 0 < n \<Longrightarrow> digit_string (take n s)"
  by (cases s; cases n) (auto simp: digit_string_def list_all_iff dest: in_set_takeD)

section \<open>What a match consumes and captures\<close>

lemma star_states_result:
  "(p', s', g') \<in> set (star_states c (p, s, g)) \<Longrightarrow> g' = g \<and> (\<exists>t. s = t @ s')"
proof (induction s arbitrary: p)
  case Nil
  then show ?case by simp
next
  case (Cons x xs)
  show ?case
  proof (cases "(p', s', g') = (p, x # xs, g)")
    case True
    then show ?thesis by simp
  next
    case False
    with Cons.prems have "x = c" and "(p', s', g') \<in> set (star_states c (Some x, xs, g))"
      by (auto split: if_splits)
    from Cons.IH [OF this(2)] obtain t where "g' = g" "xs = t @ s'" by blast
    then have "x # xs = (x # t) @ s'" by simp
    with \<open>g' = g\<close> show ?thesis by blast
  qed
qed

lemma seq_elim:
  assumes "(p', s', g') \<in> set (rx_match (Seq a b) st)"
  obtains p1 s1 g1 where "(p1, s1, g1) \<in> set (rx_match a st)"
    and "(p', s', g') \<in> set (rx_match b (p1, s1, g1))"
  using assms by auto

lemma rx_match_consumes:
  "(p', s', g') \<in> set (rx_match r (p, s, g)) \<Longrightarrow> \<exists>t. s = t @ s' \<and> min_len r \<le> length t"
proof (induction r arbitrary: p s g p' s' g')
  case (Seq a b)
  then obtain p1 s1 g1 where a: "(p1, s1, g1) \<in> set (rx_match a (p, s, g))"
    and b: "(p', s', g') \<in> set (rx_match b (p1, s1, g1))"
    by auto
  from Seq.IH(1) [OF a] obtain t1 where t1: "s = t1 @ s1" "min_len a \<le> length t1" by blast
  from Seq.IH(2) [OF b] obtain t2 where t2: "s1 = t2 @ s'" "min_len b \<le> length t2" by blast
  from t1 t2 have "s = (t1 @ t2) @ s'" "min_len (Seq a b) \<le> length (t1 @ t2)" by simp_all
  then show ?case by blast
next
  case (Alt a b)
  then consider "(p', s', g') \<in> set (rx_match a (p, s, g))" | "(p', s', g') \<in> set (rx_match b (p, s, g))"
    by auto
  then show ?case
  proof cases
    case 1
    from Alt.IH(1) [OF 1] show ?thesis by auto
  next
    case 2
    from Alt.IH(2) [OF 2] show ?thesis by auto
  qed
next
  case (Star c)
  then show ?case using star_states_result [of p' s' g' c p s g] by simp
next
  case (Grp a)
  then obtain g0 where "(p', s', g0) \<in> set (rx_match a (p, s, g))" by auto
  from Grp.IH [OF this] show ?case by simp
next
  case (Opt a)
  then consider "(p', s', g') \<in> set (rx_match a (p, s, g))" | "s' = s"
    by auto
  then show ?case
  proof cases
    case 1
    from Opt.IH [OF 1] show ?thesis by auto
  next
    case 2
    then show ?thesis by simp
  qed
qed (auto split: list.splits if_splits)

lemma no_grp_keeps:
  "\<not> has_grp r \<Longrightarrow> (p', s', g') \<in> set (rx_match r (p, s, g)) \<Longrightarrow> g' = g"
proof (induction r arbitrary: p s g p' s' g')
  case (Seq a b)
  then obtain p1 s1 g1 where a: "(p1, s1, g1) \<in> set (rx_match a (p, s, g))"
    and b: "(p', s', g') \<in> set (rx_match b (p1, s1, g1))"
    by auto
  from Seq.prems(1) Seq.IH(1) [OF _ a] Seq.IH(2) [OF _ b] show ?case by simp
next
  case (Star c)
  then show ?case using star_states_result [of p' s' g' c p s g] by simp
qed (auto split: list.splits if_splits)

lemma digit_rx_consumes:
  "digit_rx r \<Longrightarrow> (p', s', g') \<in> set (rx_match r (p, s, g)) \<Longrightarrow>
     \<exists>t. s = t @ s' \<and> list_all is_digit t"
proof (induction r arbitrary: p s g p' s' g')
  case (Seq a b)
  then obtain p1 s1 g1 where a: "(p1, s1, g1) \<in> set (rx_match a (p, s, g))"
    and b: "(p', s', g') \<in> set (rx_match b (p1, s1, g1))"
    by auto
  from Seq.prems(1) Seq.IH(1) [OF _ a] obtain t1 where t1: "s = t1 @ s1" "list_all is_digit t1"
    by auto
  from Seq.prems(1) Seq.IH(2) [OF _ b] obtain t2 where t2: "s1 = t2 @ s'" "list_all is_digit t2"
    by auto
  from t1 t2 have "s = (t1 @ t2) @ s'" "list_all is_digit (t1 @ t2)" by simp_all
  then show ?case by blast
next
  case (Chr c)
  then have "s = [c] @ s'" "list_all is_digit [c]" by (auto split: list.splits if_splits)
  then show ?case by blast
next
  case (OneOf cs)
  then obtain x where "s = [x] @ s'" "x \<in> set cs" by (auto split: list.splits if_splits)
  with OneOf.prems(1) have "s = [x] @ s'" "list_all is_digit [x]" by (auto simp: list_all_iff)
  then show ?case by blast
next
  case Digit
  then obtain x where "s = [x] @ s'" "list_all is_digit [x]" by (auto split: list.splits if_splits)
  then show ?case by blast
qed auto

lemma grp_digits:
  assumes "digit_rx r" "0 < min_len r" "(p', s', g') \<in> set (rx_match (Grp r) (p, s, g))"
  shows "\<exists>t. g' = Some t \<and> digit_string t \<and> min_len r \<le> length t"
proof -
  from assms(3) obtain g0 where m: "(p', s', g0) \<in> set (rx_match r (p, s, g))"
    and g': "g' = Some (take (length s - length s') s)"
    by auto
  from digit_rx_consumes [OF assms(1) m] obtain t where t: "s = t @ s'" "list_all is_digit t"
    by blast
  from rx_match_consumes [OF m] obtain u where u: "s = u @ s'" "min_len r \<le> length u"
    by blast
  from t u have "u = t" by simp
  with t u g' assms(2) have "g' = Some t" "digit_string t" "min_len r \<le> length t"
    by (auto simp: digit_string_def)
  then show ?thesis by blast
qed

lemma search_from_Some_suffix:
  "search_from r p s = Some m \<Longrightarrow>
     \<exists>p0 s0 p' s' t. s = t @ s0 \<and> (p', s', m) \<in> set (rx_match r (p0, s0, None))"
proof (induction s arbitrary: p)
  case Nil
  then obtain st rest where "rx_match r (p, [], None) = st # rest" "m = snd (snd st)"
    by (auto split: list.splits)
  then have "[] = [] @ ([]::string) \<and> (fst st, fst (snd st), m) \<in> set (rx_match r (p, [], None))"
    by simp
  then show ?case by blast
next
  case (Cons x xs)
  show ?case
  proof (cases "rx_match r (p, x # xs, None)")
    case Nil
    with Cons.prems have "search_from r (Some x) xs = Some m" by simp
    from Cons.IH [OF this] obtain p0 s0 p' s' t
      where "xs = t @ s0" "(p', s', m) \<in> set (rx_match r (p0, s0, None))"
      by blast
    then have "x # xs = (x # t) @ s0 \<and> (p', s', m) \<in> set (rx_match r (p0, s0, None))"
      by simp
    then show ?thesis by blast
  next
    case (Cons st rest)
    with Cons.prems have "m = snd (snd st)" by (auto split: prod.splits)
    with Cons have "x # xs = [] @ (x # xs) \<and>
        (fst st, fst (snd st), m) \<in> set (rx_match r (p, x # xs, None))"
      by simp
    then show ?thesis by blast
  qed
qed

lemma lit_no_grp: "\<not> has_grp (lit s)"
  by (induction s) simp_all

lemma year_regex_props: "digit_rx year_regex" "min_len year_regex = 4"
  by (simp_all add: year_regex_def is_digit_def code_point_def)

lemma second_year_regex_props: "digit_rx second_year_regex" "min_len second_year_regex = 2"
  by (simp_all add: second_year_regex_def is_digit_def code_point_def)

lemma separator_no_grp: "\<not> has_grp separator"
  by (simp add: separator_def)

lemma earlier_pattern_group:
  assumes "(p', s', g') \<in> set (rx_match (earlier_pattern y sy) (p, s, None))"
  shows "\<exists>t. g' = Some t \<and> digit_string t"
proof -
  let ?rest = "Seq separator (Alt (lit y) (lit sy))"
  from assms obtain p1 s1 g1 where a: "(p1, s1, g1) \<in> set (rx_match (Grp year_regex) (p, s, None))"
    and b: "(p', s', g') \<in> set (rx_match ?rest (p1, s1, g1))"
    unfolding earlier_pattern_def by (rule seq_elim)
  have "\<not> has_grp ?rest" by (simp add: separator_no_grp lit_no_grp)
  from no_grp_keeps [OF this b] have "g' = g1" .
  with grp_digits [OF year_regex_props(1) _ a] show ?thesis
    by (auto simp: year_regex_props)
qed

lemma later_pattern_group:
  assumes "(p', s', g') \<in> set (rx_match (later_pattern y) (p, s, None))"
  shows "\<exists>t. g' = Some t \<and> digit_string t"
proof -
  from assms obtain p1 s1 g1
    where "(p', s', g') \<in> set (rx_match (Seq separator (Seq (Grp second_year_regex) WordB))
             (p1, s1, g1))"
    unfolding later_pattern_def by (rule seq_elim)
  then obtain p2 s2 g2
    where "(p', s', g') \<in> set (rx_match (Seq (Grp second_year_regex) WordB) (p2, s2, g2))"
    by (rule seq_elim)
  then obtain p3 s3 g3
    where c: "(p3, s3, g3) \<in> set (rx_match (Grp second_year_regex) (p2, s2, g2))"
      and d: "(p', s', g') \<in> set (rx_match WordB (p3, s3, g3))"
    by (rule seq_elim)
  from d have "g' = g3" by (auto split: if_splits)
  with grp_digits [OF second_year_regex_props(1) _ c] show ?thesis
    by (auto simp: second_year_regex_props)
qed

lemma re_search_earlier_group:
  assumes "re_search (earlier_pattern y sy) text = Some m"
  shows "\<exists>t. m = Some t \<and> digit_string t"
proof -
  from assms have "search_from (earlier_pattern y sy) None text = Some m"
    by (simp add: re_search_def)
  from search_from_Some_suffix [OF this]
  obtain p0 s0 p' s' where "(p', s', m) \<in> set (rx_match (earlier_pattern y sy) (p0, s0, None))"
    by blast
  then show ?thesis by (rule earlier_pattern_group)
qed

lemma re_search_later_group:
  assumes "re_search (later_pattern y) text = Some m"
  shows "\<exists>t. m = Some t \<and> digit_string t"
proof -
  from assms have "search_from (later_pattern y) None text = Some m"
    by (simp add: re_search_def)
  from search_from_Some_suffix [OF this]
  obtain p0 s0 p' s' where "(p', s', m) \<in> set (rx_match (later_pattern y) (p0, s0, None))"
    by blast
  then show ?thesis by (rule later_pattern_group)
qed

lemma separator_needs_char:
  assumes "(p', s', g') \<in> set (rx_match separator (p, s, g))"
  shows "\<exists>c \<in> set s. c = CHR ''-'' \<or> c = CHR ''/''"
proof -
  from assms obtain p1 s1 g1
    where a: "(p1, s1, g1) \<in> set (rx_match (Star CHR '' '') (p, s, g))"
      and b: "(p', s', g') \<in> set (rx_match (Seq (OneOf ''-/'') (Star CHR '' '')) (p1, s1, g1))"
    unfolding separator_def by (rule seq_elim)
  from b obtain p2 s2 g2 where c: "(p2, s2, g2) \<in> set (rx_match (OneOf ''-/'') (p1, s1, g1))"
    by (rule seq_elim)
  then obtain x where x: "s1 = x # s2" "x = CHR ''-'' \<or> x = CHR ''/''"
    by (auto split: list.splits if_splits)
  from rx_match_consumes [OF a] obtain t where "s = t @ s1" by blast
  with x show ?thesis by auto
qed

lemma earlier_needs_separator:
  assumes "(p', s', g') \<in> set (rx_match (earlier_pattern y sy) (p, s, g))"
  shows "\<exists>c \<in> set s. c = CHR ''-'' \<or> c = CHR ''/''"
proof -
  from assms obtain p1 s1 g1
    where a: "(p1, s1, g1) \<in> set (rx_match (Grp year_regex) (p, s, g))"
      and b: "(p', s', g') \<in> set (rx_match (Seq separator (Alt (lit y) (lit sy))) (p1, s1, g1))"
    unfolding earlier_pattern_def by (rule seq_elim)
  from b obtain p2 s2 g2 where "(p2, s2, g2) \<in> set (rx_match separator (p1, s1, g1))"
    by (rule seq_elim)
  from separator_needs_char [OF this] obtain c where c: "c \<in> set s1" "c = CHR ''-'' \<or> c = CHR ''/''"
    by blast
  from rx_match_consumes [OF a] obtain t where "s = t @ s1" by blast
  with c show ?thesis by auto
qed

lemma later_needs_separator:
  assumes "(p', s', g') \<in> set (rx_match (later_pattern y) (p, s, g))"
  shows "\<exists>c \<in> set s. c = CHR ''-'' \<or> c = CHR ''/''"
proof -
  from assms obtain p1 s1 g1
    where a: "(p1, s1, g1) \<in> set (rx_match (lit y) (p, s, g))"
      and b: "(p', s', g') \<in> set (rx_match (Seq separator (Seq (Grp second_year_regex) WordB))
                (p1, s1, g1))"
    unfolding later_pattern_def by (rule seq_elim)
  from b obtain p2 s2 g2 where "(p2, s2, g2) \<in> set (rx_match separator (p1, s1, g1))"
    by (rule seq_elim)
  from separator_needs_char [OF this] obtain c where c: "c \<in> set s1" "c = CHR ''-'' \<or> c = CHR ''/''"
    by blast
  from rx_match_consumes [OF a] obtain t where "s = t @ s1" by blast
  with c show ?thesis by auto
qed

lemma no_separator_no_match:
  assumes "CHR ''-'' \<notin> set data_segment" "CHR ''/'' \<notin> set data_segment"
  shows "re_search (earlier_pattern y sy) data_segment = None"
    and "re_search (later_pattern y) data_segment = None"
proof -
  show "re_search (earlier_pattern y sy) data_segment = None"
  proof (rule ccontr)
    assume "re_search (earlier_pattern y sy) data_segment \<noteq> None"
    then obtain m where "search_from (earlier_pattern y sy) None data_segment = Some m"
      by (auto simp: re_search_def)
    from search_from_Some_suffix [OF this] obtain p0 s0 p' s' t
      where s: "data_segment = t @ s0"
        and "(p', s', m) \<in> set (rx_match (earlier_pattern y sy) (p0, s0, None))"
      by blast
    from earlier_needs_separator [OF this(2)] s assms show False by auto
  qed
  show "re_search (later_pattern y) data_segment = None"
  proof (rule ccontr)
    assume "re_search (later_pattern y) data_segment \<noteq> None"
    then obtain m where "search_from (later_pattern y) None data_segment = Some m"
      by (auto simp: re_search_def)
    from search_from_Some_suffix [OF this] obtain p0 s0 p' s' t
      where s: "data_segment = t @ s0"
        and "(p', s', m) \<in> set (rx_match (later_pattern y) (p0, s0, None))"
      by blast
    from later_needs_separator [OF this(2)] s assms show False by auto
  qed
qed

section \<open>The year functions on well-formed years\<close>

lemma digit_string_no_meta: "digit_string s \<Longrightarrow> \<not> (\<exists>c \<in> set s. is_meta c)"
  by (auto simp: digit_string_def list_all_iff digit_not_special)

lemma year_ok_no_meta:
  assumes "year_ok year"
  shows "\<not> (\<exists>c \<in> set (py_str year). is_meta c)"
proof (cases year)
  case (PInt i)
  then show ?thesis
    using digit_string_no_meta [OF digits_of_digit_string]
    by (auto simp: py_str_def str_int_def minus_not_meta)
next
  case (PStr s)
  with assms show ?thesis
    using digit_string_no_meta [of s] by (simp add: py_str_def year_ok_def)
qed

lemma year_ok_int:
  assumes "year_ok year"
  shows "\<exists>v. py_int year = Inr v"
proof (cases year)
  case (PInt i)
  then show ?thesis by (simp add: py_int_def)
next
  case (PStr s)
  with assms show ?thesis
    by (simp add: py_int_def year_ok_def int_of_str_digits)
qed

lemma year_search_ok:
  "year_ok year \<Longrightarrow> year_search (py_str year) pat text = Inr (re_search pat text)"
  using year_ok_no_meta [of year] by (simp add: year_search_def)

lemma year_prefix_int:
  assumes "year_ok year" "digit_string t"
  shows "\<exists>v. int_of_str (take 2 (py_str year) @ t) = Inr v"
proof -
  have digs: "\<exists>v. int_of_str (take 2 ds @ t) = Inr v" if "digit_string ds" for ds
  proof -
    from that have "digit_string (take 2 ds)" by (simp add: digit_string_take)
    with assms(2) have "digit_string (take 2 ds @ t)"
      by (simp add: digit_string_append digit_string_def)
    then show ?thesis by (simp add: int_of_str_digits)
  qed
  show ?thesis
  proof (cases year)
    case (PStr s)
    with assms(1) digs [of s] show ?thesis by (simp add: py_str_def year_ok_def)
  next
    case (PInt i)
    show ?thesis
    proof (cases "i < 0")
      case False
      with PInt digs [OF digits_of_digit_string] show ?thesis
        by (simp add: py_str_def str_int_def)
    next
      case True
      let ?ds = "digits_of (nat (- i))"
      have "digit_string (take 1 ?ds)"
        by (simp add: digit_string_take digits_of_digit_string)
      with assms(2) have "digit_string (take 1 ?ds @ t)"
        by (simp add: digit_string_append digit_string_def)
      then have "\<exists>v. int_of_str (CHR ''-'' # (take 1 ?ds @ t)) = Inr v"
        by (simp add: int_of_str_minus_digits)
      moreover have "take 2 (CHR ''-'' # ?ds) = CHR ''-'' # take 1 ?ds"
        by (simp add: take_Cons')
      ultimately show ?thesis using PInt True
        by (simp add: py_str_def str_int_def)
    qed
  qed
qed

lemma expand_short_year_int:
  assumes "year_ok year" "digit_string t"
  shows "\<exists>v. int_of_str (expand_short_year year t) = Inr v"
  using year_prefix_int [OF assms] assms(2)
  by (simp add: expand_short_year_def int_of_str_digits)

lemma earlier_no_match:
  assumes "year_search (py_str year) (earlier_pattern (py_str year) (drop 2 (py_str year))) text
             = Inr None"
  shows "get_earlier_of_slash_year year text = Inr year"
  using assms by (simp add: get_earlier_of_slash_year_def)

lemma later_no_match:
  assumes "year_search (py_str year) (later_pattern (py_str year)) text = Inr None"
  shows "get_later_of_slash_year year text = Inr year"
  using assms by (simp add: get_later_of_slash_year_def)

lemma earlier_match:
  assumes "year_ok year" "py_int year = Inr y"
    and "re_search (earlier_pattern (py_str year) (drop 2 (py_str year))) text = Some m"
  shows "\<exists>t f. m = Some t \<and> digit_string t \<and> int_of_str t = Inr f \<and>
           get_earlier_of_slash_year year text = Inr (if f < y then PStr t else year)"
proof -
  from re_search_earlier_group [OF assms(3)] obtain t where t: "m = Some t" "digit_string t"
    by blast
  then have f: "int_of_str t = Inr (int (digits_value t))" by (simp add: int_of_str_digits)
  with t assms show ?thesis
    by (simp add: get_earlier_of_slash_year_def year_search_ok)
qed

lemma later_match:
  assumes "year_ok year" "py_int year = Inr y"
    and "re_search (later_pattern (py_str year)) text = Some m"
  shows "\<exists>t f. m = Some t \<and> digit_string t \<and> int_of_str (expand_short_year year t) = Inr f \<and>
           get_later_of_slash_year year text = Inr (if f > y then PStr (expand_short_year year t) else year)"
proof -
  from re_search_later_group [OF assms(3)] obtain t where t: "m = Some t" "digit_string t"
    by blast
  from expand_short_year_int [OF assms(1) t(2)] obtain f where f: "int_of_str (expand_short_year year t) = Inr f"
    by blast
  with t assms show ?thesis
    by (simp add: get_later_of_slash_year_def year_search_ok expand_short_year_def)
qed

lemma earlier_result:
  assumes "year_ok year" "py_int year = Inr y"
  shows "\<exists>r v. get_earlier_of_slash_year year text = Inr r \<and> py_int r = Inr v \<and> v \<le> y \<and>
           (r = year \<or> (\<exists>t. r = PStr t \<and> digit_string t \<and> v < y))"
proof (cases "re_search (earlier_pattern (py_str year) (drop 2 (py_str year))) text")
  case None
  with assms(1) have "get_earlier_of_slash_year year text = Inr year"
    by (intro earlier_no_match) (simp add: year_search_ok)
  with assms(2) show ?thesis by simp
next
  case (Some m)
  from earlier_match [OF assms Some] obtain t f
    where t: "digit_string t" "int_of_str t = Inr f"
      and r: "get_earlier_of_slash_year year text = Inr (if f < y then PStr t else year)"
    by blast
  show ?thesis
  proof (cases "f < y")
    case True
    with t r show ?thesis by (simp add: py_int_def)
  next
    case False
    with r assms(2) show ?thesis by simp
  qed
qed

lemma later_result:
  assumes "year_ok year" "py_int year = Inr y"
  shows "\<exists>r v. get_later_of_slash_year year text = Inr r \<and> py_int r = Inr v \<and> y \<le> v \<and>
           (r = year \<or> (\<exists>t. r = PStr t \<and> y < v))"
proof (cases "re_search (later_pattern (py_str year)) text")
  case None
  with assms(1) have "get_later_of_slash_year year text = Inr year"
    by (intro later_no_match) (simp add: year_search_ok)
  with assms(2) show ?thesis by simp
next
  case (Some m)
  from later_match [OF assms Some] obtain t f
    where t: "int_of_str (expand_short_year year t) = Inr f"
      and r: "get_later_of_slash_year year text =
                Inr (if f > y then PStr (expand_short_year year t) else year)"
    by blast
  show ?thesis
  proof (cases "f > y")
    case True
    with t r show ?thesis by (simp add: py_int_def)
  next
    case False
    with r assms(2) show ?thesis by simp
  qed
qed

section \<open>The loops\<close>

lemma any_fragment_iff:
  "any_fragment fragments seg = (\<exists>r \<in> set fragments. re_search r (lower seg) \<noteq> None)"
  by (induction fragments) auto

lemma scan_segments_known:
  assumes "search_data search_type = Some fragments"
  shows "scan_segments segs search_type =
           Inr (if \<exists>seg \<in> set segs. truthy seg \<and> any_fragment fragments (str_of seg)
                then ''1'' else '''')"
  using assms by (induction segs) auto

lemma scan_segments_unknown:
  assumes "search_data search_type = None"
  shows "scan_segments segs search_type =
           (if \<exists>seg \<in> set segs. truthy seg then Inl KeyError else Inr '''')"
  using assms by (induction segs) auto

lemma search_data_dom:
  "(search_data k \<noteq> None) = (k \<in> {''completeness'', ''binding'', ''nonprint''})"
  by (simp add: search_data_def)

lemma next_unused_found:
  assumes "m < n" "n \<le> 999"
    and "\<not> isfile (path_join pb (new_filename b n e))"
    and "\<forall>k. m < k \<and> k < n \<longrightarrow> isfile (path_join pb (new_filename b k e))"
  shows "next_unused isfile pb b e f m = Inr (path_join pb (new_filename b n e))"
  using assms
proof (induction "n - m" arbitrary: m)
  case 0
  then show ?case by simp
next
  case (Suc d)
  show ?case
  proof (cases "Suc m = n")
    case True
    with Suc.prems(3) show ?thesis
      by (subst next_unused.simps) (simp add: Let_def)
  next
    case False
    with Suc.prems have lt: "Suc m < n" and taken: "isfile (path_join pb (new_filename b (Suc m) e))"
      by auto
    from Suc.hyps(2) have "d = n - Suc m" by simp
    from Suc.hyps(1) [OF this lt Suc.prems(2) Suc.prems(3)] Suc.prems(4)
    have "next_unused isfile pb b e f (Suc m) = Inr (path_join pb (new_filename b n e))"
      by simp
    with taken lt Suc.prems(2) show ?thesis
      by (subst next_unused.simps) (simp add: Let_def)
  qed
qed

lemma next_unused_exhausted:
  assumes "m < 999"
    and "\<forall>k. m < k \<and> k \<le> 999 \<longrightarrow> isfile (path_join pb (new_filename b k e))"
  shows "next_unused isfile pb b e f m =
           Inl (Runaway (''At least 1000 files with the base name '' @ f @ ''. Runaway process?''))"
  using assms
proof (induction "999 - m" arbitrary: m)
  case 0
  then show ?case by simp
next
  case (Suc d)
  from Suc.prems have taken: "isfile (path_join pb (new_filename b (Suc m) e))" by simp
  show ?case
  proof (cases "Suc m = 999")
    case True
    with taken show ?thesis
      by (subst next_unused.simps) (simp add: Let_def)
  next
    case False
    with Suc.prems(1) have lt: "Suc m < 999" by simp
    from Suc.hyps(2) have "d = 999 - Suc m" by simp
    from Suc.hyps(1) [OF this lt] Suc.prems(2)
    have "next_unused isfile pb b e f (Suc m) =
            Inl (Runaway (''At least 1000 files with the base name '' @ f @ ''. Runaway process?''))"
      by simp
    with taken lt show ?thesis
      by (subst next_unused.simps) (simp add: Let_def)
  qed
qed

section \<open>The finder\<close>

lemma inst_abc: "get_institution_name_from_filename ''input/ABC.tsv'' = ''abc''"
  by code_simp

lemma inst_xyz: "get_institution_name_from_filename ''xyz.mrk'' = ''xyz''"
  by code_simp

lemma global_issues_flag:
  "global_issues (self\<lparr>use_validator_config := b\<rparr>) = global_issues self"
  by (simp add: global_issues_def split: option.splits)

text \<open>Without an entry in \<^verbatim>\<open>associated_names_map\<close>, a file with fields of its own
  gets the issues of the validator configuration, as the docstring of
  \<^verbatim>\<open>get_issues_for_individual_file\<close> says.\<close>

lemma override_without_alias:
  assumes "fields_given (get_input_fields self filename)" "filename \<noteq> []"
    and "associated_names_map self (get_institution_name_from_filename filename) = None"
  shows "fst (get_fields_for_individual_file self filename) = Inr (get_input_fields self filename)"
    and "get_issues_for_individual_file (snd (get_fields_for_individual_file self filename))
           (Some filename)
         = Inr (global_issues self)"
  using assms
  by (simp_all add: get_fields_for_individual_file_def get_issues_for_individual_file_def
      global_issues_flag Let_def)

text \<open>As long as every associated name leads to an entry of the bulk data, the issue
  lookup returns a mapping.\<close>

lemma issues_always_returned:
  assumes "\<forall>k p. associated_names_map self k = Some p \<longrightarrow> bulk_config_data self p \<noteq> None"
  shows "\<exists>log issues. get_issues_for_individual_file self filename = Inr (log, issues)"
proof (cases filename)
  case None
  then show ?thesis
    by (cases "global_issues self") (simp add: get_issues_for_individual_file_def)
next
  case (Some name)
  show ?thesis
  proof (cases "associated_names_map self (get_institution_name_from_filename name)")
    case None
    with Some show ?thesis
      by (cases "global_issues self")
        (auto simp: get_issues_for_individual_file_def Let_def split: option.splits)
  next
    case (Some p)
    with assms obtain entry where "bulk_config_data self p = Some entry" by auto
    with Some \<open>filename = Some name\<close> show ?thesis
      by (cases "global_issues self")
        (auto simp: get_issues_for_individual_file_def Let_def split: option.splits)
  qed
qed

section \<open>The claims\<close>

subsection \<open>Policy resolver\<close>

text \<open>
  Claim C1. After \<^verbatim>\<open>get_fields_for_individual_file(F)\<close> has returned the fields that
  the validator configuration holds for \<open>F\<close>, the following
  \<^verbatim>\<open>get_issues_for_individual_file(F)\<close> is to pass over the bulk data and fall through
  to the issues of the validator configuration. Evaluated on \<open>member_config\<close> and the
  file \<^verbatim>\<open>input/ABC.tsv\<close>: the fields are those of the file and the flag is set, the
  institution \<^verbatim>\<open>abc\<close> has a bulk entry, which is passed over; but \<^verbatim>\<open>abc\<close> is also
  an associated name, that branch does not test the flag, and the issues returned are
  those of the program \<^verbatim>\<open>consortium\<close> in the bulk data, not the issues of the
  validator configuration (the last conjunct).
\<close>

theorem override_then_alias_issues:
  "fst (get_fields_for_individual_file member_config ''input/ABC.tsv'')
     = Inr (Some [''001'', ''245'']) \<and>
   use_validator_config (snd (get_fields_for_individual_file member_config ''input/ABC.tsv'')) \<and>
   bulk_config_data member_config (get_institution_name_from_filename ''input/ABC.tsv'') \<noteq> None \<and>
   get_issues_for_individual_file
       (snd (get_fields_for_individual_file member_config ''input/ABC.tsv''))
       (Some ''input/ABC.tsv'')
     = Inr ([(INFO, ''Using disqualifying issues set for consortium'')],
            [(''nonprint_words_in_holdings'', True)]) \<and>
   global_issues (snd (get_fields_for_individual_file member_config ''input/ABC.tsv''))
     = ([], [(''binding_words_in_holdings'', True)])"
  by (simp add: get_fields_for_individual_file_def get_issues_for_individual_file_def
      member_config_def fields_given_def global_issues_def inst_abc Let_def)

text \<open>
  Claim C6. The issue lookup is to return the issues of the validator configuration, or
  the built-in defaults with a warning, whenever no filename is given, the file's own
  fields were used, or the institution is unknown. Evaluated on \<open>alias_only_config\<close>
  and the file \<^verbatim>\<open>xyz.mrk\<close>, whose own fields were used and whose validator
  configuration sets no issues: the lookup returns the issues of the associated program
  with an \<^verbatim>\<open>INFO\<close> record, where the defaults and the warning were due (the last
  conjunct).
\<close>

theorem override_then_alias_skips_default:
  "use_validator_config (snd (get_fields_for_individual_file alias_only_config ''xyz.mrk'')) \<and>
   get_issues_for_individual_file
       (snd (get_fields_for_individual_file alias_only_config ''xyz.mrk'')) (Some ''xyz.mrk'')
     = Inr ([(INFO, ''Using disqualifying issues set for consortium'')],
            [(''nonprint_words_in_holdings'', True)]) \<and>
   global_issues (snd (get_fields_for_individual_file alias_only_config ''xyz.mrk''))
     = ([(WARNING, ''No disqualifying issues set. Using defaults.'')],
        [(''holdings_out_of_range'', True)])"
  by (simp add: get_fields_for_individual_file_def get_issues_for_individual_file_def
      alias_only_config_def fields_given_def global_issues_def inst_xyz Let_def)

subsection \<open>Year reconciler\<close>

text \<open>
  Claim C2. For all years and source texts, \<^verbatim>\<open>double_check_slash_start_year\<close>
  returns \<^verbatim>\<open>True\<close> if and only if the later reading of the holdings year is at
  least the earlier reading of the bibliographic year, both read as integers, and
  \<^verbatim>\<open>False\<close> otherwise; with bib \<^verbatim>\<open>(2001, "2001")\<close> and holdings
  \<^verbatim>\<open>(2000, "2000/01")\<close> it returns \<^verbatim>\<open>True\<close>.
\<close>

theorem start_year_check:
  assumes "year_ok bib_year" "year_ok holdings_year"
  shows "(\<exists>b h vb vh.
            get_earlier_of_slash_year bib_year bib_string = Inr b \<and> py_int b = Inr vb \<and>
            get_later_of_slash_year holdings_year holdings_string = Inr h \<and> py_int h = Inr vh \<and>
            double_check_slash_start_year bib_year bib_string holdings_year holdings_string
              = Inr (vh \<ge> vb)) \<and>
         double_check_slash_start_year (PInt 2001) ''2001'' (PInt 2000) ''2000/01'' = Inr True"
proof
  from year_ok_int [OF assms(1)] obtain yb where yb: "py_int bib_year = Inr yb" by blast
  from year_ok_int [OF assms(2)] obtain yh where yh: "py_int holdings_year = Inr yh" by blast
  from earlier_result [OF assms(1) yb, of bib_string] obtain b vb
    where b: "get_earlier_of_slash_year bib_year bib_string = Inr b" "py_int b = Inr vb"
    by blast
  from later_result [OF assms(2) yh, of holdings_string] obtain h vh
    where h: "get_later_of_slash_year holdings_year holdings_string = Inr h" "py_int h = Inr vh"
    by blast
  from b h have "double_check_slash_start_year bib_year bib_string holdings_year holdings_string
      = Inr (vh \<ge> vb)"
    by (simp add: double_check_slash_start_year_def)
  with b h show "\<exists>b h vb vh.
            get_earlier_of_slash_year bib_year bib_string = Inr b \<and> py_int b = Inr vb \<and>
            get_later_of_slash_year holdings_year holdings_string = Inr h \<and> py_int h = Inr vh \<and>
            double_check_slash_start_year bib_year bib_string holdings_year holdings_string
              = Inr (vh \<ge> vb)"
    by blast
next
  show "double_check_slash_start_year (PInt 2001) ''2001'' (PInt 2000) ''2000/01'' = Inr True"
    by code_simp
qed

text \<open>The theorem at a bib year 1966 read from \<^verbatim>\<open>1965/66\<close> and a holdings year
  1964: the earlier reading is 1965, and 1964 is too early.\<close>

theorem start_year_check_witness:
  "year_ok (PInt 1966) \<and> year_ok (PStr ''1964'') \<and>
   get_earlier_of_slash_year (PInt 1966) ''1965/66'' = Inr (PStr ''1965'') \<and>
   get_later_of_slash_year (PStr ''1964'') ''1964'' = Inr (PStr ''1964'') \<and>
   double_check_slash_start_year (PInt 1966) ''1965/66'' (PStr ''1964'') ''1964'' = Inr False"
proof -
  have a: "year_ok (PInt 1966)" by (simp add: year_ok_def)
  have b: "year_ok (PStr ''1964'')" by code_simp
  have e: "get_earlier_of_slash_year (PInt 1966) ''1965/66'' = Inr (PStr ''1965'')" by code_simp
  have l: "get_later_of_slash_year (PStr ''1964'') ''1964'' = Inr (PStr ''1964'')" by code_simp
  have ve: "py_int (PStr ''1965'') = Inr 1965" by code_simp
  have vl: "py_int (PStr ''1964'') = Inr 1964" by code_simp
  from start_year_check [OF a b, of "''1965/66''" "''1964''", THEN conjunct1]
  obtain b0 h0 vb vh
    where "get_earlier_of_slash_year (PInt 1966) ''1965/66'' = Inr b0" "py_int b0 = Inr vb"
      and "get_later_of_slash_year (PStr ''1964'') ''1964'' = Inr h0" "py_int h0 = Inr vh"
      and r: "double_check_slash_start_year (PInt 1966) ''1965/66'' (PStr ''1964'') ''1964''
                = Inr (vh \<ge> vb)"
    by (elim exE conjE)
  with e l ve vl have "vb = 1965" "vh = 1964" by simp_all
  with r have "double_check_slash_start_year (PInt 1966) ''1965/66'' (PStr ''1964'') ''1964''
      = Inr False"
    by simp
  with a b e l show ?thesis by (intro conjI)
qed

text \<open>
  Claim C3. For every year and text, \<^verbatim>\<open>get_earlier_of_slash_year\<close> returns a value
  numerically at most the year and \<^verbatim>\<open>get_later_of_slash_year\<close> a value numerically
  at least the year: no call moves a year in both directions.
\<close>

theorem slash_year_direction:
  assumes "year_ok year"
  shows "\<exists>y e ve l vl.
           py_int year = Inr y \<and>
           get_earlier_of_slash_year year data_segment = Inr e \<and> py_int e = Inr ve \<and> ve \<le> y \<and>
           get_later_of_slash_year year data_segment = Inr l \<and> py_int l = Inr vl \<and> y \<le> vl"
proof -
  from year_ok_int [OF assms] obtain y where y: "py_int year = Inr y" by blast
  from earlier_result [OF assms y, of data_segment] obtain e ve
    where e: "get_earlier_of_slash_year year data_segment = Inr e" "py_int e = Inr ve" "ve \<le> y"
    by blast
  from later_result [OF assms y, of data_segment] obtain l vl
    where l: "get_later_of_slash_year year data_segment = Inr l" "py_int l = Inr vl" "y \<le> vl"
    by blast
  from y e l show ?thesis by blast
qed

text \<open>The theorem at the year 2000 in \<^verbatim>\<open>1999/2000/01\<close>, which both functions
  correct, each in its own direction.\<close>

theorem slash_year_direction_witness:
  "year_ok (PInt 2000) \<and>
   get_earlier_of_slash_year (PInt 2000) ''1999/2000/01'' = Inr (PStr ''1999'') \<and>
   get_later_of_slash_year (PInt 2000) ''1999/2000/01'' = Inr (PStr ''2001'') \<and>
   (\<exists>ve vl. py_int (PStr ''1999'') = Inr ve \<and> py_int (PStr ''2001'') = Inr vl \<and>
      ve \<le> 2000 \<and> 2000 \<le> vl)"
proof -
  have a: "year_ok (PInt 2000)" by (simp add: year_ok_def)
  have e: "get_earlier_of_slash_year (PInt 2000) ''1999/2000/01'' = Inr (PStr ''1999'')"
    by code_simp
  have l: "get_later_of_slash_year (PInt 2000) ''1999/2000/01'' = Inr (PStr ''2001'')"
    by code_simp
  from slash_year_direction [OF a, of "''1999/2000/01''"]
  obtain y e0 ve l0 vl
    where "py_int (PInt 2000) = Inr y"
      and "get_earlier_of_slash_year (PInt 2000) ''1999/2000/01'' = Inr e0"
          "py_int e0 = Inr ve" "ve \<le> y"
      and "get_later_of_slash_year (PInt 2000) ''1999/2000/01'' = Inr l0"
          "py_int l0 = Inr vl" "y \<le> vl"
    by (elim exE conjE)
  with e l have "py_int (PStr ''1999'') = Inr ve" "py_int (PStr ''2001'') = Inr vl"
      "ve \<le> 2000" "2000 \<le> vl"
    by (simp_all add: py_int_def)
  then have "\<exists>ve vl. py_int (PStr ''1999'') = Inr ve \<and> py_int (PStr ''2001'') = Inr vl \<and>
      ve \<le> 2000 \<and> 2000 \<le> vl"
    by (intro exI conjI)
  with a e l show ?thesis by (intro conjI)
qed

text \<open>
  Claim C4. In \<^verbatim>\<open>get_later_of_slash_year\<close> a two-digit candidate found after the
  separator is prefixed with the first two characters of the year; the candidate, so
  expanded, is returned if and only if it is numerically larger than the year, and
  otherwise the year is returned unchanged. For the year 2000 and the text
  \<^verbatim>\<open>2000/01 issue\<close> the result is 2001, delivered as the candidate built from the
  text, the digits \<^verbatim>\<open>2001\<close>.
\<close>

theorem later_expands_two_digits:
  assumes "year_ok year"
    and "re_search (later_pattern (py_str year)) data_segment = Some m"
  shows "(\<exists>found c y.
            m = Some found \<and> int_of_str (expand_short_year year found) = Inr c \<and>
            py_int year = Inr y \<and>
            get_later_of_slash_year year data_segment =
              Inr (if c > y then PStr (expand_short_year year found) else year)) \<and>
         (\<forall>found. length found = 2 \<longrightarrow>
            expand_short_year year found = take 2 (py_str year) @ found) \<and>
         get_later_of_slash_year (PInt 2000) ''2000/01 issue'' = Inr (PStr ''2001'')"
proof (intro conjI)
  from year_ok_int [OF assms(1)] obtain y where y: "py_int year = Inr y" by blast
  from later_match [OF assms(1) y assms(2)] y
  show "\<exists>found c y.
            m = Some found \<and> int_of_str (expand_short_year year found) = Inr c \<and>
            py_int year = Inr y \<and>
            get_later_of_slash_year year data_segment =
              Inr (if c > y then PStr (expand_short_year year found) else year)"
    by blast
next
  show "\<forall>found. length found = 2 \<longrightarrow>
            expand_short_year year found = take 2 (py_str year) @ found"
    by (simp add: expand_short_year_def)
next
  show "get_later_of_slash_year (PInt 2000) ''2000/01 issue'' = Inr (PStr ''2001'')"
    by code_simp
qed

text \<open>The theorem at the year 1999 in \<^verbatim>\<open>v.3 1999-00\<close>: the candidate
  \<^verbatim>\<open>00\<close> expands to 1900, which is not larger, and the year stays.\<close>

theorem later_expands_two_digits_witness:
  "year_ok (PInt 1999) \<and>
   re_search (later_pattern (py_str (PInt 1999))) ''v.3 1999-00'' = Some (Some ''00'') \<and>
   expand_short_year (PInt 1999) ''00'' = ''1900'' \<and>
   get_later_of_slash_year (PInt 1999) ''v.3 1999-00'' = Inr (PInt 1999)"
proof -
  have a: "year_ok (PInt 1999)" by (simp add: year_ok_def)
  have s: "re_search (later_pattern (py_str (PInt 1999))) ''v.3 1999-00'' = Some (Some ''00'')"
    by code_simp
  have x: "expand_short_year (PInt 1999) ''00'' = ''1900''" by code_simp
  have c: "int_of_str ''1900'' = Inr 1900" by code_simp
  from later_expands_two_digits [OF a s, THEN conjunct1]
  obtain found c0 y
    where "Some ''00'' = Some found" "int_of_str (expand_short_year (PInt 1999) found) = Inr c0"
      and "py_int (PInt 1999) = Inr y"
      and r: "get_later_of_slash_year (PInt 1999) ''v.3 1999-00'' =
                Inr (if c0 > y then PStr (expand_short_year (PInt 1999) found) else PInt 1999)"
    by (elim exE conjE)
  with x c have "c0 = 1900" "y = 1999" by (simp_all add: py_int_def)
  with r have "get_later_of_slash_year (PInt 1999) ''v.3 1999-00'' = Inr (PInt 1999)" by simp
  with a s x show ?thesis by (intro conjI)
qed

text \<open>
  Claim C5. For every year \<open>Y\<close> and text \<open>T\<close> in which the search of a function
  finds no match, that function returns \<open>Y\<close> unchanged and raises nothing. No search
  finds a match in a text without \<^verbatim>\<open>-\<close> and \<^verbatim>\<open>/\<close>, so there both functions
  return the year.
\<close>

theorem no_match_returns_year:
  "(year_search (py_str Y) (earlier_pattern (py_str Y) (drop 2 (py_str Y))) T = Inr None
      \<longrightarrow> get_earlier_of_slash_year Y T = Inr Y) \<and>
   (year_search (py_str Y) (later_pattern (py_str Y)) T = Inr None
      \<longrightarrow> get_later_of_slash_year Y T = Inr Y) \<and>
   (year_ok Y \<and> CHR ''-'' \<notin> set T \<and> CHR ''/'' \<notin> set T
      \<longrightarrow> get_earlier_of_slash_year Y T = Inr Y \<and> get_later_of_slash_year Y T = Inr Y)"
proof (intro conjI impI)
  assume "year_search (py_str Y) (earlier_pattern (py_str Y) (drop 2 (py_str Y))) T = Inr None"
  then show "get_earlier_of_slash_year Y T = Inr Y" by (rule earlier_no_match)
next
  assume "year_search (py_str Y) (later_pattern (py_str Y)) T = Inr None"
  then show "get_later_of_slash_year Y T = Inr Y" by (rule later_no_match)
next
  assume a: "year_ok Y \<and> CHR ''-'' \<notin> set T \<and> CHR ''/'' \<notin> set T"
  then show "get_earlier_of_slash_year Y T = Inr Y"
    by (intro earlier_no_match) (simp add: year_search_ok no_separator_no_match)
next
  assume a: "year_ok Y \<and> CHR ''-'' \<notin> set T \<and> CHR ''/'' \<notin> set T"
  then show "get_later_of_slash_year Y T = Inr Y"
    by (intro later_no_match) (simp add: year_search_ok no_separator_no_match)
qed

text \<open>The theorem at the year 2000 in \<^verbatim>\<open>2000/01\<close> for the earlier year, at the
  year \<^verbatim>\<open>'1987'\<close> in \<^verbatim>\<open>1986/1987\<close> for the later year, and at the year 1987 in
  \<^verbatim>\<open>v.1 (1987)\<close>, which holds no separator.\<close>

theorem no_match_returns_year_witness:
  "year_search (py_str (PInt 2000)) (earlier_pattern (py_str (PInt 2000))
      (drop 2 (py_str (PInt 2000)))) ''2000/01'' = Inr None \<and>
   get_earlier_of_slash_year (PInt 2000) ''2000/01'' = Inr (PInt 2000) \<and>
   year_search (py_str (PStr ''1987'')) (later_pattern (py_str (PStr ''1987''))) ''1986/1987''
     = Inr None \<and>
   get_later_of_slash_year (PStr ''1987'') ''1986/1987'' = Inr (PStr ''1987'') \<and>
   year_ok (PInt 1987) \<and> CHR ''-'' \<notin> set ''v.1 (1987)'' \<and> CHR ''/'' \<notin> set ''v.1 (1987)'' \<and>
   get_earlier_of_slash_year (PInt 1987) ''v.1 (1987)'' = Inr (PInt 1987) \<and>
   get_later_of_slash_year (PInt 1987) ''v.1 (1987)'' = Inr (PInt 1987)"
proof -
  have e: "year_search (py_str (PInt 2000)) (earlier_pattern (py_str (PInt 2000))
      (drop 2 (py_str (PInt 2000)))) ''2000/01'' = Inr None"
    by code_simp
  have l: "year_search (py_str (PStr ''1987'')) (later_pattern (py_str (PStr ''1987'')))
      ''1986/1987'' = Inr None"
    by code_simp
  have k: "year_ok (PInt 1987)" by (simp add: year_ok_def)
  have n: "CHR ''-'' \<notin> set ''v.1 (1987)'' \<and> CHR ''/'' \<notin> set ''v.1 (1987)''" by simp
  note none = no_match_returns_year
  from none [of "PInt 2000" "''2000/01''", THEN conjunct1, THEN mp, OF e]
  have a: "get_earlier_of_slash_year (PInt 2000) ''2000/01'' = Inr (PInt 2000)" .
  from none [of "PStr ''1987''" "''1986/1987''", THEN conjunct2, THEN conjunct1, THEN mp, OF l]
  have b: "get_later_of_slash_year (PStr ''1987'') ''1986/1987'' = Inr (PStr ''1987'')" .
  from none [of "PInt 1987" "''v.1 (1987)''", THEN conjunct2, THEN conjunct2, THEN mp,
      OF conjI [OF k n]]
  have c: "get_earlier_of_slash_year (PInt 1987) ''v.1 (1987)'' = Inr (PInt 1987) \<and>
      get_later_of_slash_year (PInt 1987) ''v.1 (1987)'' = Inr (PInt 1987)" .
  from e a l b k n c show ?thesis by (intro conjI) simp_all
qed

text \<open>
  Claim C9 says that the value returned by the two functions is an integer. It is not
  when a correction is adopted: the functions return the text of the match. For the
  year 2001 and the text \<^verbatim>\<open>2000/01 issue\<close> the earlier year is the string
  \<^verbatim>\<open>'2000'\<close>, which is not the integer 2000.
\<close>

theorem returned_year_is_str:
  "get_earlier_of_slash_year (PInt 2001) ''2000/01 issue'' = Inr (PStr ''2000'') \<and>
   Inr (PStr ''2000'') \<noteq> (Inr (PInt 2000) :: py_error + pyval)"
  by code_simp

text \<open>
  Claim C9, as the code has it. For every year that is an \<^verbatim>\<open>int\<close> or a string of
  digits, and every text, each function returns either the year it was given, unchanged
  in value and type, or a string (for the earlier year a string of digits); in both
  cases \<^verbatim>\<open>int\<close> of the value returned is defined, which is how the callers compare.
\<close>

theorem returned_year_value:
  assumes "year_ok year"
  shows "\<exists>e ve l vl.
           get_earlier_of_slash_year year data_segment = Inr e \<and> py_int e = Inr ve \<and>
           (e = year \<or> (\<exists>t. e = PStr t \<and> digit_string t)) \<and>
           get_later_of_slash_year year data_segment = Inr l \<and> py_int l = Inr vl \<and>
           (l = year \<or> (\<exists>t. l = PStr t))"
proof -
  from year_ok_int [OF assms] obtain y where y: "py_int year = Inr y" by blast
  from earlier_result [OF assms y, of data_segment] obtain e ve
    where e: "get_earlier_of_slash_year year data_segment = Inr e" "py_int e = Inr ve"
      "e = year \<or> (\<exists>t. e = PStr t \<and> digit_string t)"
    by blast
  from later_result [OF assms y, of data_segment] obtain l vl
    where l: "get_later_of_slash_year year data_segment = Inr l" "py_int l = Inr vl"
      "l = year \<or> (\<exists>t. l = PStr t)"
    by blast
  from e l show ?thesis by blast
qed

text \<open>The theorem at the year \<^verbatim>\<open>'1966'\<close> in \<^verbatim>\<open>1965/66\<close>.\<close>

theorem returned_year_value_witness:
  "year_ok (PStr ''1966'') \<and>
   get_earlier_of_slash_year (PStr ''1966'') ''1965/66'' = Inr (PStr ''1965'') \<and>
   get_later_of_slash_year (PStr ''1966'') ''1965/66'' = Inr (PStr ''1966'') \<and>
   (\<exists>ve vl. py_int (PStr ''1965'') = Inr ve \<and> py_int (PStr ''1966'') = Inr vl)"
proof -
  have a: "year_ok (PStr ''1966'')" by code_simp
  have e: "get_earlier_of_slash_year (PStr ''1966'') ''1965/66'' = Inr (PStr ''1965'')"
    by code_simp
  have l: "get_later_of_slash_year (PStr ''1966'') ''1965/66'' = Inr (PStr ''1966'')"
    by code_simp
  from returned_year_value [OF a, of "''1965/66''"]
  obtain e0 ve l0 vl
    where "get_earlier_of_slash_year (PStr ''1966'') ''1965/66'' = Inr e0" "py_int e0 = Inr ve"
      and "get_later_of_slash_year (PStr ''1966'') ''1965/66'' = Inr l0" "py_int l0 = Inr vl"
    by (elim exE conjE)
  with e l have "py_int (PStr ''1965'') = Inr ve" "py_int (PStr ''1966'') = Inr vl"
    by simp_all
  then have "\<exists>ve vl. py_int (PStr ''1965'') = Inr ve \<and> py_int (PStr ''1966'') = Inr vl"
    by (intro exI conjI)
  with a e l show ?thesis by (intro conjI)
qed

subsection \<open>Magic words\<close>

text \<open>
  Claim C7. For each of the conditions \<^verbatim>\<open>completeness\<close>, \<^verbatim>\<open>binding\<close> and
  \<^verbatim>\<open>nonprint\<close> and all three fields, \<^verbatim>\<open>check_holdings_data_for_magic_words\<close>
  returns \<^verbatim>\<open>'1'\<close> if and only if some field that is not blank, in lower case, is
  matched by some fragment of the condition, and the empty string otherwise; blank and
  absent fields are skipped and nothing is raised.
\<close>

theorem magic_words_marker:
  assumes "search_type \<in> {''completeness'', ''binding'', ''nonprint''}"
  shows "\<exists>fragments. search_data search_type = Some fragments \<and>
           check_holdings_data_for_magic_words holdings nonpublic public search_type =
             Inr (if \<exists>seg \<in> {holdings, nonpublic, public}. truthy seg \<and>
                       (\<exists>r \<in> set fragments. re_search r (lower (str_of seg)) \<noteq> None)
                  then ''1'' else '''')"
proof -
  from assms obtain fragments where f: "search_data search_type = Some fragments"
    using search_data_dom [of search_type] by auto
  show ?thesis
    using f scan_segments_known [OF f, of "[holdings, nonpublic, public]"]
    by (simp add: check_holdings_data_for_magic_words_def any_fragment_iff)
qed

text \<open>The theorem at the holdings \<^verbatim>\<open>v.1-5 incomplete\<close>, and at three blank
  fields.\<close>

theorem magic_words_marker_witness:
  "''completeness'' \<in> {''completeness'', ''binding'', ''nonprint''} \<and>
   check_holdings_data_for_magic_words (Some (PStr ''v.1-5 incomplete'')) None None ''completeness''
     = Inr ''1'' \<and>
   check_holdings_data_for_magic_words (Some (PStr '''')) None None ''binding'' = Inr ''''"
proof -
  have h: "''completeness'' \<in> {''completeness'', ''binding'', ''nonprint''}" by simp
  have m: "re_search (lit ''inc'') (lower (str_of (Some (PStr ''v.1-5 incomplete'')))) \<noteq> None"
    by code_simp
  have t: "truthy (Some (PStr ''v.1-5 incomplete''))" by (simp add: truthy_def)
  from magic_words_marker [OF h, of "Some (PStr ''v.1-5 incomplete'')" None None]
  obtain fragments where f: "search_data ''completeness'' = Some fragments"
    and r: "check_holdings_data_for_magic_words (Some (PStr ''v.1-5 incomplete'')) None None
              ''completeness'' =
             Inr (if \<exists>seg \<in> {Some (PStr ''v.1-5 incomplete''), None, None}. truthy seg \<and>
                       (\<exists>r \<in> set fragments. re_search r (lower (str_of seg)) \<noteq> None)
                  then ''1'' else '''')"
    by blast
  from f have "lit ''inc'' \<in> set fragments" by (auto simp: search_data_def)
  with m t r have a: "check_holdings_data_for_magic_words (Some (PStr ''v.1-5 incomplete'')) None None
              ''completeness'' = Inr ''1''"
    by auto
  have b: "check_holdings_data_for_magic_words (Some (PStr '''')) None None ''binding'' = Inr ''''"
    using magic_words_marker [of "''binding''" "Some (PStr '''')" None None]
    by (auto simp: truthy_def)
  from h a b show ?thesis by blast
qed

text \<open>
  Claim C10. For a condition other than the three, the function raises
  \<^verbatim>\<open>KeyError\<close> if one of the fields is not blank and returns the empty string if
  all three are blank or absent: whether the wrong name is noticed depends on the fields.
\<close>

theorem magic_words_unknown_condition:
  assumes "search_type \<notin> {''completeness'', ''binding'', ''nonprint''}"
  shows "check_holdings_data_for_magic_words holdings nonpublic public search_type =
           (if truthy holdings \<or> truthy nonpublic \<or> truthy public then Inl KeyError else Inr '''')"
proof -
  from assms have "search_data search_type = None"
    using search_data_dom [of search_type] by blast
  from scan_segments_unknown [OF this, of "[holdings, nonpublic, public]"]
  show ?thesis by (simp add: check_holdings_data_for_magic_words_def)
qed

text \<open>The theorem for the condition \<^verbatim>\<open>colour\<close>, with and without a field that is
  not blank.\<close>

theorem magic_words_unknown_condition_witness:
  "''colour'' \<notin> {''completeness'', ''binding'', ''nonprint''} \<and>
   check_holdings_data_for_magic_words (Some (PStr ''v.1-5'')) None None ''colour'' = Inl KeyError \<and>
   check_holdings_data_for_magic_words (Some (PStr '''')) None (Some (PInt 0)) ''colour'' = Inr ''''"
proof -
  have h: "''colour'' \<notin> {''completeness'', ''binding'', ''nonprint''}" by simp
  from magic_words_unknown_condition [OF h, of "Some (PStr ''v.1-5'')" None None]
    magic_words_unknown_condition [OF h, of "Some (PStr '''')" None "Some (PInt 0)"] h
  show ?thesis by (simp add: truthy_def)
qed

subsection \<open>Unused file names\<close>

text \<open>
  Claim C8 speaks of every path. For a file that exists and whose name has no period,
  \<^verbatim>\<open>rindex\<close> raises \<^verbatim>\<open>ValueError\<close> and no numbered name is tried.
\<close>

theorem unused_filename_no_extension:
  "get_unused_filename readme_only ''README'' = Inl ValueError"
  by code_simp

text \<open>
  Claim C8, for every path whose file name holds a period, and every state of the file
  system. If no file is at the path, the path is returned unchanged. Otherwise the
  numbered names are the directory of the path joined with the name in which
  \<^verbatim>\<open>(n)\<close> stands before the last period; the result is the numbered name of the
  first \<open>n\<close> from 1 to 999 at which no file is, and the exception is raised when all
  of them up to 999 are taken.
\<close>

theorem unused_filename_with_extension:
  assumes "path_split path = (path_base, full_filename)"
    and "rindex CHR ''.'' full_filename = Some i"
  shows "(\<not> isfile path \<longrightarrow> get_unused_filename isfile path = Inr path) \<and>
         (isfile path \<longrightarrow>
            (\<forall>n. 1 \<le> n \<and> n \<le> 999 \<and>
                 \<not> isfile (path_join path_base
                             (new_filename (take i full_filename) n (drop i full_filename))) \<and>
                 (\<forall>k. 1 \<le> k \<and> k < n \<longrightarrow>
                      isfile (path_join path_base
                               (new_filename (take i full_filename) k (drop i full_filename))))
               \<longrightarrow> get_unused_filename isfile path =
                     Inr (path_join path_base
                           (new_filename (take i full_filename) n (drop i full_filename)))) \<and>
            ((\<forall>n. 1 \<le> n \<and> n \<le> 999 \<longrightarrow>
                  isfile (path_join path_base
                           (new_filename (take i full_filename) n (drop i full_filename))))
               \<longrightarrow> get_unused_filename isfile path =
                     Inl (Runaway (''At least 1000 files with the base name '' @ full_filename
                                    @ ''. Runaway process?''))))"
proof (intro conjI impI allI)
  assume "\<not> isfile path"
  then show "get_unused_filename isfile path = Inr path"
    by (simp add: get_unused_filename_def)
next
  fix n
  let ?cand = "\<lambda>k. path_join path_base (new_filename (take i full_filename) k (drop i full_filename))"
  assume f: "isfile path"
    and n: "1 \<le> n \<and> n \<le> 999 \<and> \<not> isfile (?cand n) \<and> (\<forall>k. 1 \<le> k \<and> k < n \<longrightarrow> isfile (?cand k))"
  then have "next_unused isfile path_base (take i full_filename) (drop i full_filename)
               full_filename 0 = Inr (?cand n)"
    by (intro next_unused_found) auto
  with f assms show "get_unused_filename isfile path = Inr (?cand n)"
    by (simp add: get_unused_filename_def)
next
  let ?cand = "\<lambda>k. path_join path_base (new_filename (take i full_filename) k (drop i full_filename))"
  assume f: "isfile path" and all: "\<forall>n. 1 \<le> n \<and> n \<le> 999 \<longrightarrow> isfile (?cand n)"
  then have "next_unused isfile path_base (take i full_filename) (drop i full_filename)
               full_filename 0 =
             Inl (Runaway (''At least 1000 files with the base name '' @ full_filename
                            @ ''. Runaway process?''))"
    by (intro next_unused_exhausted) auto
  with f assms show "get_unused_filename isfile path =
      Inl (Runaway (''At least 1000 files with the base name '' @ full_filename
                     @ ''. Runaway process?''))"
    by (simp add: get_unused_filename_def)
qed

text \<open>The theorem at \<^verbatim>\<open>x.txt\<close> with \<^verbatim>\<open>x(1).txt\<close> taken, at a free path, and
  in a file system where every path is taken.\<close>

theorem unused_filename_with_extension_witness:
  "path_split ''x.txt'' = ('''', ''x.txt'') \<and> rindex CHR ''.'' ''x.txt'' = Some 1 \<and>
   get_unused_filename (\<lambda>p. p = ''x.txt'' \<or> p = ''x(1).txt'') ''x.txt'' = Inr ''x(2).txt'' \<and>
   get_unused_filename (\<lambda>p. p = ''x.txt'' \<or> p = ''x(1).txt'') ''y.txt'' = Inr ''y.txt'' \<and>
   get_unused_filename (\<lambda>p. True) ''x.txt'' =
     Inl (Runaway ''At least 1000 files with the base name x.txt. Runaway process?'')"
proof -
  let ?fs = "\<lambda>p. p = ''x.txt'' \<or> p = ''x(1).txt''"
  have s: "path_split ''x.txt'' = ('''', ''x.txt'')" by code_simp
  have r: "rindex CHR ''.'' ''x.txt'' = Some 1" by code_simp
  have c1: "path_join '''' (new_filename ''x'' 1 ''.txt'') = ''x(1).txt''"
    by code_simp
  have c2: "path_join '''' (new_filename ''x'' 2 ''.txt'') = ''x(2).txt''"
    by code_simp
  have f: "?fs ''x.txt''" by simp
  have first: "?fs (path_join '''' (new_filename ''x'' k ''.txt''))"
    if "1 \<le> k \<and> k < 2" for k :: nat
  proof -
    from that have "k = 1" by simp
    with c1 show ?thesis by simp
  qed
  have free: "\<not> ?fs (path_join '''' (new_filename ''x'' 2 ''.txt''))"
    by (simp only: c2) simp
  have n2: "1 \<le> (2::nat) \<and> (2::nat) \<le> 999 \<and>
      \<not> ?fs (path_join '''' (new_filename ''x'' 2 ''.txt'')) \<and>
      (\<forall>k. 1 \<le> k \<and> k < 2 \<longrightarrow> ?fs (path_join '''' (new_filename ''x'' k ''.txt'')))"
  proof (intro conjI allI impI)
    show "\<not> ?fs (path_join '''' (new_filename ''x'' 2 ''.txt''))" by (rule free)
    show "?fs (path_join '''' (new_filename ''x'' k ''.txt''))" if "1 \<le> k \<and> k < 2" for k
      using that by (rule first)
  qed simp_all
  from unused_filename_with_extension [OF s r, of ?fs, THEN conjunct2, THEN mp, OF f,
      THEN conjunct1, THEN spec, of 2]
  have "1 \<le> (2::nat) \<and> (2::nat) \<le> 999 \<and>
      \<not> ?fs (path_join '''' (new_filename ''x'' 2 ''.txt'')) \<and>
      (\<forall>k. 1 \<le> k \<and> k < 2 \<longrightarrow> ?fs (path_join '''' (new_filename ''x'' k ''.txt'')))
      \<longrightarrow> get_unused_filename ?fs ''x.txt'' = Inr (path_join '''' (new_filename ''x'' 2 ''.txt''))"
    by simp
  from this [THEN mp, OF n2]
  have a: "get_unused_filename ?fs ''x.txt'' = Inr ''x(2).txt''" by (simp only: c2)
  have s': "path_split ''y.txt'' = ('''', ''y.txt'')" by code_simp
  have r': "rindex CHR ''.'' ''y.txt'' = Some 1" by code_simp
  have b: "get_unused_filename ?fs ''y.txt'' = Inr ''y.txt''"
    using unused_filename_with_extension [OF s' r', of ?fs, THEN conjunct1] by simp
  have t: "(\<lambda>p::string. True) ''x.txt''" by simp
  from unused_filename_with_extension [OF s r, of "\<lambda>p. True", THEN conjunct2, THEN mp, OF t,
      THEN conjunct2]
  have c: "get_unused_filename (\<lambda>p. True) ''x.txt'' =
     Inl (Runaway ''At least 1000 files with the base name x.txt. Runaway process?'')"
    by simp
  show ?thesis
    by (intro conjI) (fact s r a b c)+
qed

end
